theory Spec2Isabelle
  imports Main
begin

section \<open>Values held by the document store and by the script\<close>

text \<open>
  A field of a \<^verbatim>\<open>chats\<close> document is any value the store can return from
  \<^verbatim>\<open>doc.data()\<close>: null, a boolean, a number, a string, a store timestamp, an
  array or a map. The script adds \<^verbatim>\<open>undefined\<close> (a missing property) and the
  \<^verbatim>\<open>Date\<close> objects it creates. Of a number only its truthiness is ever observed
  by ChatScreen.js, so integers and NaN stand for all numbers. A store timestamp is
  represented by the millisecond instant of the \<^verbatim>\<open>Date\<close> that its
  \<^verbatim>\<open>toDate()\<close> returns; a \<^verbatim>\<open>Date\<close> by its time value in milliseconds.
  A map is an association list in which the first entry of a key is its value.
\<close>

datatype jsval =
    JUndefined
  | JNull
  | JBool bool
  | JNum int
  | JNaN
  | JStr string
  | JDate int
  | JTimestamp int
  | JArr "jsval list"
  | JObj "(string \<times> jsval) list"

type_synonym object = "(string \<times> jsval) list"

datatype error = TypeError | StoreError

text \<open>Truthiness, as used by \<^verbatim>\<open>||\<close>, \<^verbatim>\<open>!\<close> and \<^verbatim>\<open>? :\<close>.\<close>

fun truthy :: "jsval \<Rightarrow> bool" where
  "truthy JUndefined = False"
| "truthy JNull = False"
| "truthy (JBool b) = b"
| "truthy (JNum n) = (n \<noteq> 0)"
| "truthy JNaN = False"
| "truthy (JStr s) = (s \<noteq> [])"
| "truthy (JDate t) = True"
| "truthy (JTimestamp t) = True"
| "truthy (JArr vs) = True"
| "truthy (JObj kvs) = True"

text \<open>\<^verbatim>\<open>o.k\<close> on an object that is known to exist: a missing key reads as undefined.\<close>

definition getProp :: "string \<Rightarrow> object \<Rightarrow> jsval" where
  "getProp k kvs = (case map_of kvs k of Some v \<Rightarrow> v | None \<Rightarrow> JUndefined)"

text \<open>
  \<^verbatim>\<open>v?.k\<close> for a data key \<open>k\<close> (\<^verbatim>\<open>_id\<close>, or \<^verbatim>\<open>toDate\<close> on anything but a
  store timestamp): only a map can carry it; null and undefined short-circuit to
  undefined, and primitives, arrays, dates and timestamps have no such property.
\<close>

fun optChain :: "string \<Rightarrow> jsval \<Rightarrow> jsval" where
  "optChain k (JObj kvs) = getProp k kvs"
| "optChain k JUndefined = JUndefined"
| "optChain k JNull = JUndefined"
| "optChain k (JBool b) = JUndefined"
| "optChain k (JNum n) = JUndefined"
| "optChain k JNaN = JUndefined"
| "optChain k (JStr s) = JUndefined"
| "optChain k (JDate t) = JUndefined"
| "optChain k (JTimestamp t) = JUndefined"
| "optChain k (JArr vs) = JUndefined"

text \<open>\<^verbatim>\<open>v === s\<close> for a string primitive \<open>s\<close>: no conversion, so only the same string is equal.\<close>

fun strictEqStr :: "jsval \<Rightarrow> string \<Rightarrow> bool" where
  "strictEqStr (JStr t) s = (t = s)"
| "strictEqStr JUndefined s = False"
| "strictEqStr JNull s = False"
| "strictEqStr (JBool b) s = False"
| "strictEqStr (JNum n) s = False"
| "strictEqStr JNaN s = False"
| "strictEqStr (JDate t) s = False"
| "strictEqStr (JTimestamp t) s = False"
| "strictEqStr (JArr vs) s = False"
| "strictEqStr (JObj kvs) s = False"

section \<open>Conversation Feed Subscriber (ChatScreen.js, lines 107-136)\<close>

record doc =
  doc_id :: string
  data :: object

text \<open>
  An element of \<^verbatim>\<open>allMessages\<close>:
  \<^verbatim>\<open>{ id: doc.id, ...doc.data(), createdAt: <Date> }\<close>.
  The spread may overwrite \<^verbatim>\<open>id\<close>; \<^verbatim>\<open>createdAt\<close> is always the date
  computed last, kept here as its time value. Every other property is read from \<open>rest\<close>.
\<close>

record msg =
  msg_id :: jsval
  rest :: object
  createdAt :: int

text \<open>
  \<^verbatim>\<open>doc.data().createdAt?.toDate ? doc.data().createdAt.toDate() : new Date()\<close>.
  A store timestamp has the method. A map with a truthy \<^verbatim>\<open>toDate\<close> entry passes the
  test too, but the store holds no functions, so calling the entry raises a TypeError.
  \<open>now\<close> is what \<^verbatim>\<open>new Date()\<close> returns when it is evaluated for this document.
\<close>

fun normalizeCreatedAt :: "int \<Rightarrow> jsval \<Rightarrow> error + int" where
  "normalizeCreatedAt now (JTimestamp t) = Inr t"
| "normalizeCreatedAt now c =
     (if truthy (optChain ''toDate'' c) then Inl TypeError else Inr now)"

definition toMsg :: "int \<Rightarrow> doc \<Rightarrow> error + msg" where
  "toMsg now d =
     (case normalizeCreatedAt now (getProp ''createdAt'' (data d)) of
        Inl e \<Rightarrow> Inl e
      | Inr t \<Rightarrow>
          Inr \<lparr> msg_id = (case map_of (data d) ''id'' of Some v \<Rightarrow> v | None \<Rightarrow> JStr (doc_id d)),
                rest = data d,
                createdAt = t \<rparr>)"

text \<open>
  \<^verbatim>\<open>snapshot.docs.map(...)\<close>. The clock is read once per document that needs the
  fallback; \<open>clock i\<close> is the reading while document number \<open>i\<close> is mapped. An exception
  in one element aborts the whole map.
\<close>

fun mapDocs :: "(nat \<Rightarrow> int) \<Rightarrow> nat \<Rightarrow> doc list \<Rightarrow> error + msg list" where
  "mapDocs clock i [] = Inr []"
| "mapDocs clock i (d # ds) =
     (case toMsg (clock i) d of
        Inl e \<Rightarrow> Inl e
      | Inr m \<Rightarrow> (case mapDocs clock (Suc i) ds of Inl e \<Rightarrow> Inl e | Inr ms \<Rightarrow> Inr (m # ms)))"

definition allMessages :: "(nat \<Rightarrow> int) \<Rightarrow> doc list \<Rightarrow> error + msg list" where
  "allMessages clock docs = mapDocs clock 0 docs"

text \<open>
  The records for which the test \<^verbatim>\<open>createdAt?.toDate\<close> of line 113 is falsy, so
  that the fallback branch is taken: the value is neither a store timestamp nor a map
  with a truthy \<^verbatim>\<open>toDate\<close> entry.
\<close>

definition lacksToDate :: "jsval \<Rightarrow> bool" where
  "lacksToDate c = (case c of JTimestamp t \<Rightarrow> False | _ \<Rightarrow> \<not> truthy (optChain ''toDate'' c))"

text \<open>The values whose \<^verbatim>\<open>toDate\<close> can be called: the store's timestamps.\<close>

definition isTimestamp :: "jsval \<Rightarrow> bool" where
  "isTimestamp c = (case c of JTimestamp t \<Rightarrow> True | _ \<Rightarrow> False)"

text \<open>A clock that shows the instant \<open>t\<close> for as long as one snapshot is being mapped.\<close>

definition steadyClock :: "int \<Rightarrow> nat \<Rightarrow> int" where
  "steadyClock t i = t"

text \<open>\<^verbatim>\<open>msg.user?._id || msg.user\<close> and \<^verbatim>\<open>msg.receiver\<close>.\<close>

definition msgUser :: "msg \<Rightarrow> jsval" where
  "msgUser m =
     (let u = getProp ''user'' (rest m); i = optChain ''_id'' u in if truthy i then i else u)"

definition msgReceiver :: "msg \<Rightarrow> jsval" where
  "msgReceiver m = getProp ''receiver'' (rest m)"

text \<open>The predicate handed to \<^verbatim>\<open>allMessages.filter\<close> (lines 118-126).\<close>

definition keepMsg :: "string \<Rightarrow> string \<Rightarrow> msg \<Rightarrow> bool" where
  "keepMsg usr rcv m =
     ((strictEqStr (msgUser m) usr \<and> strictEqStr (msgReceiver m) rcv) \<or>
      (strictEqStr (msgUser m) rcv \<and> strictEqStr (msgReceiver m) usr))"

definition filteredMessages :: "string \<Rightarrow> string \<Rightarrow> msg list \<Rightarrow> msg list" where
  "filteredMessages usr rcv ms = filter (keepMsg usr rcv) ms"

text \<open>
  \<^verbatim>\<open>Array.prototype.sort(compare)\<close>: the language sorts stably, and an element
  \<open>a\<close> goes before \<open>b\<close> when \<open>compare a b\<close> is negative. Written here as a stable
  insertion sort, each element being placed before the first one it does not have to follow.
\<close>

fun place :: "('a \<Rightarrow> 'a \<Rightarrow> int) \<Rightarrow> 'a \<Rightarrow> 'a list \<Rightarrow> 'a list" where
  "place compare a [] = [a]"
| "place compare a (b # bs) =
     (if compare a b \<le> 0 then a # b # bs else b # place compare a bs)"

fun sortWith :: "('a \<Rightarrow> 'a \<Rightarrow> int) \<Rightarrow> 'a list \<Rightarrow> 'a list" where
  "sortWith compare [] = []"
| "sortWith compare (a # as) = place compare a (sortWith compare as)"

text \<open>\<^verbatim>\<open>(a, b) => b.createdAt - a.createdAt\<close> (line 129).\<close>

definition newestFirst :: "msg \<Rightarrow> msg \<Rightarrow> int" where
  "newestFirst a b = createdAt b - createdAt a"

text \<open>
  The value handed to \<^verbatim>\<open>setMessages\<close> by the snapshot callback for the pair
  captured in its closure, or the exception that leaves the callback.
\<close>

definition snapshotView :: "string \<Rightarrow> string \<Rightarrow> (nat \<Rightarrow> int) \<Rightarrow> doc list \<Rightarrow> error + msg list" where
  "snapshotView usr rcv clock docs =
     (case allMessages clock docs of
        Inl e \<Rightarrow> Inl e
      | Inr ms \<Rightarrow> Inr (sortWith newestFirst (filteredMessages usr rcv ms)))"

section \<open>Message Submission Path (ChatScreen.js, lines 147-173 and 483-516)\<close>

text \<open>
  What the screen does to the outside world, in the order it does it: console output,
  the call \<^verbatim>\<open>addDoc(collection(db, 'chats'), record)\<close>, the opening of a
  listener with \<^verbatim>\<open>onSnapshot\<close> and the call of the \<^verbatim>\<open>unsubscribe\<close> it returned.
\<close>

datatype effect =
    ConsoleError string
  | ConsoleLog string
  | AddDoc object
  | Subscribe nat
  | Unsubscribe nat

text \<open>
  One mounted ChatScreen: its React state (\<open>messages\<close>, \<open>avatar\<close>, \<open>receiver\<close>,
  \<open>user\<close>), the cleanup function React keeps for the subscription effect (the handle
  whose \<^verbatim>\<open>unsubscribe\<close> it will call), and, on the store's side, the listeners this
  screen has open, each with the \<open>(user, receiver)\<close> its callback closed over.
\<close>

record screen =
  messages :: "msg list"
  avatar :: jsval
  receiver :: "string option"
  user :: "string option"
  cleanup :: "nat option"
  listeners :: "(nat \<times> string \<times> string) list"
  opened :: nat
  mounted :: bool
  trace :: "effect list"

definition emit :: "effect \<Rightarrow> screen \<Rightarrow> screen" where
  "emit e st = st\<lparr>trace := trace st @ [e]\<rparr>"

text \<open>\<^verbatim>\<open>!x\<close> for a state that holds null or a string.\<close>

definition falsy :: "string option \<Rightarrow> bool" where
  "falsy x = (case x of None \<Rightarrow> True | Some s \<Rightarrow> s = [])"

text \<open>
  The object literal of lines 160-166, built from \<^verbatim>\<open>messages[0]\<close>;
  \<open>now\<close> is the reading of \<^verbatim>\<open>new Date()\<close>.
\<close>

definition buildRecord :: "int \<Rightarrow> string \<Rightarrow> object \<Rightarrow> object" where
  "buildRecord now rcv m =
     [(''_id'', getProp ''_id'' m),
      (''createdAt'', (let c = getProp ''createdAt'' m in if truthy c then c else JDate now)),
      (''text'', getProp ''text'' m),
      (''user'', getProp ''user'' m),
      (''receiver'', JStr rcv)]"

text \<open>
  \<^verbatim>\<open>onSend(messages = [])\<close>. \<open>outcome\<close> is the store's answer to the append:
  \<open>None\<close> when the promise resolves, an error when it rejects. With an empty array
  \<^verbatim>\<open>messages[0]\<close> is undefined and the destructuring raises inside the
  \<^verbatim>\<open>try\<close>, so the \<^verbatim>\<open>catch\<close> logs it. No branch touches \<open>messages\<close>.
\<close>

definition onSend :: "int \<Rightarrow> error option \<Rightarrow> object list \<Rightarrow> screen \<Rightarrow> screen" where
  "onSend now outcome msgs st =
     (if falsy (receiver st) \<or> falsy (user st)
      then emit (ConsoleError ''Receiver or user not defined'') st
      else
        (case (msgs, receiver st) of
           (m # _, Some rcv) \<Rightarrow>
             (case outcome of
                None \<Rightarrow>
                  emit (ConsoleLog ''Message sent successfully'')
                    (emit (AddDoc (buildRecord now rcv m)) st)
              | Some e \<Rightarrow>
                  emit (ConsoleError ''Error sending message:'')
                    (emit (AddDoc (buildRecord now rcv m)) st))
         | _ \<Rightarrow> emit (ConsoleError ''Error sending message:'') st))"

text \<open>
  The \<^verbatim>\<open>user\<close> prop given to the chat component (lines 513-516):
  \<^verbatim>\<open>{ _id: auth?.currentUser?.email, avatar: avatar || '<default url>' }\<close>.
\<close>

definition chatUser :: "jsval \<Rightarrow> jsval \<Rightarrow> jsval" where
  "chatUser email av =
     JObj [(''_id'', email),
           (''avatar'',
            (if truthy av then av else JStr ''https://randomuser.me/api/portraits/lego/1.jpg''))]"

text \<open>
  The chat component's own \<^verbatim>\<open>onSend\<close> (react-native-gifted-chat), which stands
  between the send button and the screen's \<^verbatim>\<open>onSend\<close>: it completes the partial
  message with \<^verbatim>\<open>user\<close>, \<^verbatim>\<open>createdAt: new Date()\<close> and a generated
  \<^verbatim>\<open>_id\<close>, these overriding what the message carried, and passes on a one-element array.
\<close>

definition giftedOnSend :: "jsval \<Rightarrow> int \<Rightarrow> string \<Rightarrow> object \<Rightarrow> object list" where
  "giftedOnSend usr now mid m =
     [[(''user'', usr), (''createdAt'', JDate now), (''_id'', JStr mid)] @ m]"

text \<open>
  \<^verbatim>\<open>String.prototype.trim\<close> on strings of 8-bit characters: tab, line feed,
  vertical tab, form feed, carriage return, space and no-break space are stripped from both ends.
\<close>

definition jsWhite :: "char \<Rightarrow> bool" where
  "jsWhite c = (c \<in> set [CHR 0x09, CHR 0x0A, CHR 0x0B, CHR 0x0C, CHR 0x0D, CHR 0x20, CHR 0xA0])"

definition trim :: "string \<Rightarrow> string" where
  "trim s = rev (dropWhile jsWhite (rev (dropWhile jsWhite s)))"

text \<open>
  The send button's \<^verbatim>\<open>onPress\<close> (lines 485-491):
  \<^verbatim>\<open>if (props.text && props.onSend) props.onSend({ text: props.text.trim() }, true)\<close>,
  with the chat component's \<^verbatim>\<open>onSend\<close> (always supplied) as \<^verbatim>\<open>props.onSend\<close>.
  \<open>email\<close> is \<^verbatim>\<open>auth?.currentUser?.email\<close>, \<open>mid\<close> the generated message id.
\<close>

definition pressSend :: "jsval \<Rightarrow> string \<Rightarrow> int \<Rightarrow> error option \<Rightarrow> string \<Rightarrow> screen \<Rightarrow> screen" where
  "pressSend email mid now outcome text st =
     (if text \<noteq> []
      then onSend now outcome
             (giftedOnSend (chatUser email (avatar st)) now mid [(''text'', JStr (trim text))]) st
      else st)"

section \<open>Subscription life cycle (ChatScreen.js, lines 94-143)\<close>

text \<open>\<^verbatim>\<open>unsubscribe()\<close>: the store drops the listener; it delivers nothing to it afterwards.\<close>

definition unsubscribe :: "nat \<Rightarrow> screen \<Rightarrow> screen" where
  "unsubscribe h st =
     emit (Unsubscribe h) (st\<lparr>listeners := filter (\<lambda>l. fst l \<noteq> h) (listeners st)\<rparr>)"

text \<open>
  The body of the effect: return early, leaving no cleanup, unless both identities are
  set; otherwise open a listener whose callbacks close over the current pair, and return
  the cleanup that calls its \<^verbatim>\<open>unsubscribe\<close>.
\<close>

definition subscriptionEffect :: "screen \<Rightarrow> screen" where
  "subscriptionEffect st =
     (if falsy (receiver st) \<or> falsy (user st) then st\<lparr>cleanup := None\<rparr>
      else
        (case (receiver st, user st) of
           (Some rcv, Some usr) \<Rightarrow>
             emit (Subscribe (opened st))
               (st\<lparr>listeners := listeners st @ [(opened st, usr, rcv)],
                   cleanup := Some (opened st),
                   opened := Suc (opened st)\<rparr>)
         | _ \<Rightarrow> st\<lparr>cleanup := None\<rparr>))"

text \<open>The cleanup returned by the previous run of the effect, if it returned one.\<close>

definition runCleanup :: "screen \<Rightarrow> screen" where
  "runCleanup st =
     (case cleanup st of None \<Rightarrow> st | Some h \<Rightarrow> (unsubscribe h st)\<lparr>cleanup := None\<rparr>)"

text \<open>
  React's handling of \<^verbatim>\<open>useEffect(..., [receiver, user])\<close>: when a render is
  committed in which a dependency differs from the previous one, the old cleanup runs
  first and the effect body next; on unmount the cleanup runs.
\<close>

definition commit :: "string option \<Rightarrow> string option \<Rightarrow> screen \<Rightarrow> screen" where
  "commit usr rcv st =
     (if \<not> mounted st then st
      else if receiver st = rcv \<and> user st = usr then st
      else subscriptionEffect (runCleanup (st\<lparr>receiver := rcv, user := usr\<rparr>)))"

definition unmount :: "screen \<Rightarrow> screen" where
  "unmount st = (if mounted st then (runCleanup st)\<lparr>mounted := False\<rparr> else st)"

text \<open>
  The store calls the first callback of a listener that is still open with a snapshot
  (lines 107-132). An exception raised in the callback leaves it before
  \<^verbatim>\<open>setMessages\<close> is reached.
\<close>

definition onSnapshot :: "nat \<Rightarrow> (nat \<Rightarrow> int) \<Rightarrow> doc list \<Rightarrow> screen \<Rightarrow> screen" where
  "onSnapshot h clock docs st =
     (case find (\<lambda>l. fst l = h) (listeners st) of
        None \<Rightarrow> st
      | Some (h', usr, rcv) \<Rightarrow>
          (case snapshotView usr rcv clock docs of
             Inl e \<Rightarrow> st
           | Inr view \<Rightarrow> st\<lparr>messages := view\<rparr>))"

text \<open>The store calls the second callback of an open listener (lines 133-136).\<close>

definition onSnapshotError :: "nat \<Rightarrow> screen \<Rightarrow> screen" where
  "onSnapshotError h st =
     (case find (\<lambda>l. fst l = h) (listeners st) of
        None \<Rightarrow> st
      | Some l \<Rightarrow> emit (ConsoleError ''Error fetching messages:'') st)"

datatype event =
    Commit "string option" "string option"
  | Unmount
  | Snapshot nat "nat \<Rightarrow> int" "doc list"
  | SnapshotError nat
  | Send int "error option" "object list"

fun step :: "event \<Rightarrow> screen \<Rightarrow> screen" where
  "step (Commit usr rcv) st = commit usr rcv st"
| "step Unmount st = unmount st"
| "step (Snapshot h clock docs) st = onSnapshot h clock docs st"
| "step (SnapshotError h) st = onSnapshotError h st"
| "step (Send now outcome msgs) st = onSend now outcome msgs st"

fun run :: "event list \<Rightarrow> screen \<Rightarrow> screen" where
  "run [] st = st"
| "run (e # es) st = run es (step e st)"

text \<open>
  The screen right after mounting: all state is null or empty, and the first run of the
  effect has returned early.
\<close>

definition mountScreen :: screen where
  "mountScreen =
     \<lparr> messages = [], avatar = JNull, receiver = None, user = None, cleanup = None,
       listeners = [], opened = 0, mounted = True, trace = [] \<rparr>"

text \<open>
  The handles that are open once a sequence of effects has happened, starting from the
  handles \<open>live\<close>.
\<close>

fun track :: "nat list \<Rightarrow> effect list \<Rightarrow> nat list" where
  "track live [] = live"
| "track live (Subscribe h # es) = track (live @ [h]) es"
| "track live (Unsubscribe h # es) = track (filter (\<lambda>k. k \<noteq> h) live) es"
| "track live (e # es) = track live es"

definition liveAfter :: "effect list \<Rightarrow> nat list" where
  "liveAfter es = track [] es"

text \<open>
  Two invariants of a running screen. \<open>current\<close>: every open listener closed over the
  pair now in the state. \<open>tidy\<close>: the open listeners are exactly the one (if any) whose
  cleanup React holds, its handle is one that has been given out, they are the handles
  the trace of effects leaves open, and no prefix of the trace leaves more than one open.
\<close>

definition current :: "screen \<Rightarrow> bool" where
  "current st =
     (\<forall>l\<in>set (listeners st). user st = Some (fst (snd l)) \<and> receiver st = Some (snd (snd l)))"

definition tidy :: "screen \<Rightarrow> bool" where
  "tidy st =
     ((cleanup st = None \<longrightarrow> listeners st = [])
      \<and> (\<forall>h. cleanup st = Some h \<longrightarrow>
             mounted st \<and> h < opened st \<and> (\<exists>usr rcv. listeners st = [(h, usr, rcv)]))
      \<and> liveAfter (trace st) = map fst (listeners st)
      \<and> (\<forall>n. length (liveAfter (take n (trace st))) \<le> 1))"

section \<open>Scenario data\<close>

text \<open>
  The scenario of the specification: \<^verbatim>\<open>alice@x.com\<close> has selected
  \<^verbatim>\<open>bob@y.com\<close> and sends \<^verbatim>\<open>hi\<close> at instant 100.
\<close>

definition aliceToBob :: screen where
  "aliceToBob = mountScreen\<lparr>receiver := Some ''bob@y.com'', user := Some ''alice@x.com''\<rparr>"

definition hiMessage :: object where
  "hiMessage =
     [(''user'', chatUser (JStr ''alice@x.com'') JNull), (''createdAt'', JDate 100),
      (''_id'', JStr ''m1''), (''text'', JStr ''hi'')]"


definition docHi :: doc where
  "docHi =
     \<lparr> doc_id = ''d1'',
       data = [(''_id'', JStr ''m1''), (''createdAt'', JTimestamp 100), (''text'', JStr ''hi''),
               (''user'', chatUser (JStr ''alice@x.com'') JNull),
               (''receiver'', JStr ''bob@y.com'')] \<rparr>"

definition docDated :: doc where
  "docDated =
     \<lparr> doc_id = ''X'',
       data = [(''createdAt'', JTimestamp 1000), (''user'', JStr ''alice@x.com''),
               (''receiver'', JStr ''bob@y.com'')] \<rparr>"

definition docUndated :: doc where
  "docUndated =
     \<lparr> doc_id = ''Y'',
       data = [(''user'', JStr ''bob@y.com''), (''receiver'', JStr ''alice@x.com'')] \<rparr>"

text \<open>A document whose \<^verbatim>\<open>createdAt\<close> is a map with a \<^verbatim>\<open>toDate\<close> entry.\<close>

definition docBadToDate :: doc where
  "docBadToDate =
     \<lparr> doc_id = ''Z'',
       data = [(''createdAt'', JObj [(''toDate'', JBool True)]), (''user'', JStr ''carol@z.com''),
               (''receiver'', JStr ''dave@w.com'')] \<rparr>"

text \<open>The screen once the render with both identities has been committed.\<close>

definition aliceSubscribed :: screen where
  "aliceSubscribed = commit (Some ''alice@x.com'') (Some ''bob@y.com'') mountScreen"

section \<open>Properties of the filter\<close>

lemma strictEqStr_iff: "strictEqStr v s \<longleftrightarrow> v = JStr s"
  by (cases v) auto

lemma keepMsg_pair: "keepMsg u r x \<longleftrightarrow> {msgUser x, msgReceiver x} = {JStr u, JStr r}"
  unfolding keepMsg_def strictEqStr_iff by (auto simp: doubleton_eq_iff)





lemma set_place: "set (place c a xs) = insert a (set xs)"
  by (induction xs) auto

lemma set_sortWith: "set (sortWith c xs) = set xs"
  by (induction xs) (simp_all add: set_place)

lemma msgUser_chatUser:
  assumes "A \<noteq> []" and "getProp ''user'' (rest m) = chatUser (JStr A) av"
  shows "msgUser m = JStr A"
  using assms by (simp add: msgUser_def chatUser_def getProp_def Let_def)

text \<open>
  C2. With both identities set to \<open>A\<close> and \<open>B\<close>, a successful send appends the record
  built from the outgoing message, whose user object carries \<open>A\<close>. Let a snapshot hold
  that record, that is, let \<^verbatim>\<open>allMessages\<close> have an element with the record's user
  and receiver fields. Then the filter of the pair \<open>(A, B)\<close> retains the element and the
  view the callback computes for \<open>(A, B)\<close> contains it, while for every \<open>C\<close> other than
  \<open>B\<close> the filter of the pair \<open>(A, C)\<close> removes it and the view computed for
  \<open>(A, C)\<close> does not contain it.
\<close>

theorem sent_record_belongs_to_its_pair:
  assumes "user st = Some A" and "receiver st = Some B" and "A \<noteq> []" and "B \<noteq> []"
      and "getProp ''user'' om = chatUser (JStr A) av"
      and "allMessages clock docs = Inr ms" and "m \<in> set ms"
      and "getProp ''user'' (rest m) = getProp ''user'' (buildRecord now B om)"
      and "getProp ''receiver'' (rest m) = getProp ''receiver'' (buildRecord now B om)"
  shows "trace (onSend now None (om # oms) st) =
           trace st @ [AddDoc (buildRecord now B om), ConsoleLog ''Message sent successfully'']
         \<and> keepMsg A B m
         \<and> m \<in> set (filteredMessages A B ms)
         \<and> (\<exists>view. snapshotView A B clock docs = Inr view \<and> m \<in> set view)
         \<and> (\<forall>C. C \<noteq> B \<longrightarrow>
               \<not> keepMsg A C m
               \<and> m \<notin> set (filteredMessages A C ms)
               \<and> (\<exists>view. snapshotView A C clock docs = Inr view \<and> m \<notin> set view))"
proof -
  have t: "trace (onSend now None (om # oms) st) =
           trace st @ [AddDoc (buildRecord now B om), ConsoleLog ''Message sent successfully'']"
    using assms(1-4) by (simp add: onSend_def falsy_def emit_def)
  have "getProp ''user'' (rest m) = chatUser (JStr A) av"
    using assms(5,8) by (simp add: buildRecord_def getProp_def)
  then have u: "msgUser m = JStr A" using assms(3) by (rule msgUser_chatUser[rotated])
  have r: "msgReceiver m = JStr B"
    using assms(9) by (simp add: msgReceiver_def buildRecord_def getProp_def)
  have k: "keepMsg A B m" by (simp add: keepMsg_pair u r)
  have nk: "\<not> keepMsg A C m" if "C \<noteq> B" for C
    using that by (auto simp: keepMsg_pair u r doubleton_eq_iff)
  have v: "snapshotView usr rcv clock docs =
             Inr (sortWith newestFirst (filteredMessages usr rcv ms))" for usr rcv
    using assms(6) by (simp add: snapshotView_def)
  have 1: "m \<in> set (filteredMessages A B ms)"
    using k assms(7) by (simp add: filteredMessages_def)
  have 2: "\<exists>view. snapshotView A B clock docs = Inr view \<and> m \<in> set view"
    using 1 by (simp add: v set_sortWith)
  have 3: "\<not> keepMsg A C m \<and> m \<notin> set (filteredMessages A C ms)
           \<and> (\<exists>view. snapshotView A C clock docs = Inr view \<and> m \<notin> set view)"
    if "C \<noteq> B" for C
    using nk[OF that] by (simp add: v set_sortWith filteredMessages_def)
  from t k 1 2 3 show ?thesis by blast
qed

lemma feed_of_hi:
  "allMessages (steadyClock 2000) [docHi, docDated] =
     Inr [\<lparr>msg_id = JStr ''d1'', rest = data docHi, createdAt = 100\<rparr>,
          \<lparr>msg_id = JStr ''X'', rest = data docDated, createdAt = 1000\<rparr>]"
  by (simp add: allMessages_def toMsg_def getProp_def docDated_def docHi_def steadyClock_def)

lemma view_of_hi_for_bob:
  "snapshotView ''alice@x.com'' ''bob@y.com'' (steadyClock 2000) [docHi, docDated] =
     Inr [\<lparr>msg_id = JStr ''X'', rest = data docDated, createdAt = 1000\<rparr>,
          \<lparr>msg_id = JStr ''d1'', rest = data docHi, createdAt = 100\<rparr>]"
  unfolding snapshotView_def feed_of_hi
  by (simp add: filteredMessages_def keepMsg_def msgUser_def msgReceiver_def newestFirst_def
      getProp_def docDated_def docHi_def chatUser_def)

lemma view_of_hi_for_carol:
  "snapshotView ''alice@x.com'' ''carol@z.com'' (steadyClock 2000) [docHi, docDated] = Inr []"
  unfolding snapshotView_def feed_of_hi
  by (simp add: filteredMessages_def keepMsg_def msgUser_def msgReceiver_def newestFirst_def
      getProp_def docDated_def docHi_def chatUser_def)

theorem sent_record_belongs_to_its_pair_witness:
  "trace (onSend 100 None [hiMessage] aliceToBob) =
     [AddDoc (buildRecord 100 ''bob@y.com'' hiMessage), ConsoleLog ''Message sent successfully'']
   \<and> snapshotView ''alice@x.com'' ''bob@y.com'' (steadyClock 2000) [docHi, docDated] =
     Inr [\<lparr>msg_id = JStr ''X'', rest = data docDated, createdAt = 1000\<rparr>,
          \<lparr>msg_id = JStr ''d1'', rest = data docHi, createdAt = 100\<rparr>]
   \<and> snapshotView ''alice@x.com'' ''carol@z.com'' (steadyClock 2000) [docHi, docDated] = Inr []
   \<and> \<lparr>msg_id = JStr ''d1'', rest = data docHi, createdAt = 100\<rparr>
       \<in> set (filteredMessages ''alice@x.com'' ''bob@y.com''
                [\<lparr>msg_id = JStr ''d1'', rest = data docHi, createdAt = 100\<rparr>,
                 \<lparr>msg_id = JStr ''X'', rest = data docDated, createdAt = 1000\<rparr>])
   \<and> \<lparr>msg_id = JStr ''d1'', rest = data docHi, createdAt = 100\<rparr>
       \<notin> set (filteredMessages ''alice@x.com'' ''carol@z.com''
                [\<lparr>msg_id = JStr ''d1'', rest = data docHi, createdAt = 100\<rparr>,
                 \<lparr>msg_id = JStr ''X'', rest = data docDated, createdAt = 1000\<rparr>])"
proof -
  have s: "user aliceToBob = Some ''alice@x.com''" "receiver aliceToBob = Some ''bob@y.com''"
      "trace aliceToBob = []"
    by (simp_all add: aliceToBob_def mountScreen_def)
  have u: "getProp ''user'' hiMessage = chatUser (JStr ''alice@x.com'') JNull"
    by (simp add: hiMessage_def getProp_def)
  have f: "getProp ''user'' (data docHi) =
             getProp ''user'' (buildRecord 100 ''bob@y.com'' hiMessage)"
      "getProp ''receiver'' (data docHi) =
             getProp ''receiver'' (buildRecord 100 ''bob@y.com'' hiMessage)"
    by (simp_all add: docHi_def buildRecord_def hiMessage_def getProp_def)
  show ?thesis
    using sent_record_belongs_to_its_pair
      [where st = aliceToBob and A = "''alice@x.com''" and B = "''bob@y.com''" and om = hiMessage
         and av = JNull and clock = "steadyClock 2000" and docs = "[docHi, docDated]"
         and ms = "[\<lparr>msg_id = JStr ''d1'', rest = data docHi, createdAt = 100\<rparr>,
                    \<lparr>msg_id = JStr ''X'', rest = data docDated, createdAt = 1000\<rparr>]"
         and m = "\<lparr>msg_id = JStr ''d1'', rest = data docHi, createdAt = 100\<rparr>"
         and now = 100 and oms = "[]"]
      s u f feed_of_hi view_of_hi_for_bob view_of_hi_for_carol
    by simp
qed

section \<open>Ordering of the view\<close>

lemma sorted_place:
  "sorted_wrt (\<lambda>a b. createdAt b \<le> createdAt a) xs \<Longrightarrow>
   sorted_wrt (\<lambda>a b. createdAt b \<le> createdAt a) (place newestFirst x xs)"
  by (induction xs) (auto simp: set_place newestFirst_def)

lemma sorted_sortWith: "sorted_wrt (\<lambda>a b. createdAt b \<le> createdAt a) (sortWith newestFirst xs)"
  by (induction xs) (auto simp: sorted_place)

text \<open>
  C3. In every view the callback produces, whatever the order of the documents in the
  snapshot, a message with a later normalized timestamp stands before one with an
  earlier timestamp.
\<close>

theorem view_newest_first:
  assumes "snapshotView usr rcv clock docs = Inr view"
      and "i < length view" and "j < length view"
      and "createdAt (view ! j) < createdAt (view ! i)"
  shows "i < j"
proof (rule ccontr)
  assume "\<not> i < j"
  from assms(1) obtain ms where v: "view = sortWith newestFirst (filteredMessages usr rcv ms)"
    by (auto simp: snapshotView_def split: sum.splits)
  have s: "sorted_wrt (\<lambda>a b. createdAt b \<le> createdAt a) view"
    unfolding v by (rule sorted_sortWith)
  show False
  proof (cases "i = j")
    case True
    with assms(4) show False by simp
  next
    case False
    with \<open>\<not> i < j\<close> have "j < i" by simp
    with s assms(2) have "createdAt (view ! i) \<le> createdAt (view ! j)"
      by (simp add: sorted_wrt_iff_nth_less)
    with assms(4) show False by simp
  qed
qed

lemma view_of_two:
  "snapshotView ''alice@x.com'' ''bob@y.com'' (steadyClock 2000) [docDated, docUndated] =
     Inr [\<lparr>msg_id = JStr ''Y'', rest = data docUndated, createdAt = 2000\<rparr>,
          \<lparr>msg_id = JStr ''X'', rest = data docDated, createdAt = 1000\<rparr>]"
  by (simp add: snapshotView_def allMessages_def toMsg_def getProp_def filteredMessages_def
      keepMsg_def msgUser_def msgReceiver_def newestFirst_def docDated_def docUndated_def
      steadyClock_def)

theorem view_newest_first_witness:
  "snapshotView ''alice@x.com'' ''bob@y.com'' (steadyClock 2000) [docDated, docUndated] =
     Inr [\<lparr>msg_id = JStr ''Y'', rest = data docUndated, createdAt = 2000\<rparr>,
          \<lparr>msg_id = JStr ''X'', rest = data docDated, createdAt = 1000\<rparr>]
   \<and> (0::nat) < 1"
  using view_newest_first
    [of "''alice@x.com''" "''bob@y.com''" "steadyClock 2000" "[docDated, docUndated]"
        "[\<lparr>msg_id = JStr ''Y'', rest = data docUndated, createdAt = 2000\<rparr>,
          \<lparr>msg_id = JStr ''X'', rest = data docDated, createdAt = 1000\<rparr>]" 0 1]
  by (simp add: view_of_two)

section \<open>Dependence of the view on the clock\<close>

lemma normalize_lacks: "lacksToDate c \<Longrightarrow> normalizeCreatedAt now c = Inr now"
  by (cases c) (auto simp: lacksToDate_def)

lemma normalize_indep: "\<not> lacksToDate c \<Longrightarrow> normalizeCreatedAt n1 c = normalizeCreatedAt n2 c"
  by (cases c) (auto simp: lacksToDate_def)

lemma toMsg_indep:
  "(lacksToDate (getProp ''createdAt'' (data d)) \<longrightarrow> n1 = n2) \<Longrightarrow> toMsg n1 d = toMsg n2 d"
  using normalize_indep[of "getProp ''createdAt'' (data d)" n1 n2]
  by (cases "lacksToDate (getProp ''createdAt'' (data d))") (auto simp: toMsg_def)

lemma mapDocs_indep:
  "(\<forall>i<length docs. lacksToDate (getProp ''createdAt'' (data (docs ! i))) \<longrightarrow> c1 (k + i) = c2 (k + i))
   \<Longrightarrow> mapDocs c1 k docs = mapDocs c2 k docs"
proof (induction docs arbitrary: k)
  case Nil
  then show ?case by simp
next
  case (Cons d ds)
  from Cons.prems have "lacksToDate (getProp ''createdAt'' (data d)) \<longrightarrow> c1 k = c2 k"
    by fastforce
  then have h: "toMsg (c1 k) d = toMsg (c2 k) d" by (rule toMsg_indep)
  have "\<forall>i<length ds. lacksToDate (getProp ''createdAt'' (data (ds ! i))) \<longrightarrow> c1 (Suc k + i) = c2 (Suc k + i)"
  proof (intro allI impI)
    fix i assume "i < length ds" and "lacksToDate (getProp ''createdAt'' (data (ds ! i)))"
    with Cons.prems[rule_format, of "Suc i"] show "c1 (Suc k + i) = c2 (Suc k + i)" by simp
  qed
  then have ih: "mapDocs c1 (Suc k) ds = mapDocs c2 (Suc k) ds" by (rule Cons.IH)
  show ?case unfolding mapDocs.simps h ih by (rule refl)
qed

text \<open>
  C4, as stated, is refuted: the step is not a function of the snapshot and the pair
  alone. On the same two-document snapshot, one document having no \<^verbatim>\<open>createdAt\<close>,
  a run at instant 500 and a run at instant 2000 give different sequences (the undated
  record is last in the first and first in the second).
\<close>

theorem view_not_function_of_snapshot_counterexample:
  "snapshotView ''alice@x.com'' ''bob@y.com'' (steadyClock 500) [docDated, docUndated] \<noteq>
   snapshotView ''alice@x.com'' ''bob@y.com'' (steadyClock 2000) [docDated, docUndated]"
  by (simp add: snapshotView_def allMessages_def toMsg_def getProp_def filteredMessages_def
      keepMsg_def msgUser_def msgReceiver_def newestFirst_def docDated_def docUndated_def
      steadyClock_def)

text \<open>
  C4, amended. The step is a function of the snapshot, the pair and the clock readings
  taken for the records that get the fallback timestamp: two runs on the same snapshot
  give the same result (the same ordered sequence, or the same exception) whenever they
  read the same instant for each such record, in particular whenever every record
  has a store timestamp.
\<close>

theorem view_depends_on_fallback_clock_only:
  assumes "\<forall>i<length docs.
             lacksToDate (getProp ''createdAt'' (data (docs ! i))) \<longrightarrow> clock1 i = clock2 i"
  shows "snapshotView usr rcv clock1 docs = snapshotView usr rcv clock2 docs"
proof -
  have "mapDocs clock1 0 docs = mapDocs clock2 0 docs"
    by (rule mapDocs_indep) (use assms in simp)
  then show ?thesis by (simp add: snapshotView_def allMessages_def)
qed

theorem view_depends_on_fallback_clock_only_witness:
  "snapshotView ''alice@x.com'' ''bob@y.com'' (steadyClock 500) [docDated] =
   snapshotView ''alice@x.com'' ''bob@y.com'' (steadyClock 2000) [docDated]"
proof -
  have h: "\<forall>i<length [docDated].
      lacksToDate (getProp ''createdAt'' (data ([docDated] ! i))) \<longrightarrow>
      steadyClock 500 i = steadyClock 2000 i"
    by (simp add: docDated_def getProp_def lacksToDate_def)
  show ?thesis
    using view_depends_on_fallback_clock_only [OF h, of "''alice@x.com''" "''bob@y.com''"]
    by simp
qed

section \<open>The timestamp fallback\<close>

lemma mapDocs_Inr:
  "mapDocs clock k docs = Inr ms \<Longrightarrow>
   length ms = length docs \<and> (\<forall>i<length docs. toMsg (clock (k + i)) (docs ! i) = Inr (ms ! i))"
proof (induction docs arbitrary: k ms)
  case Nil
  then show ?case by simp
next
  case (Cons d ds)
  from Cons.prems obtain m ms' where m: "toMsg (clock k) d = Inr m"
    and r: "mapDocs clock (Suc k) ds = Inr ms'" and ms: "ms = m # ms'"
    by (auto split: sum.splits)
  from Cons.IH[OF r] have len: "length ms' = length ds"
    and el: "\<forall>i<length ds. toMsg (clock (Suc k + i)) (ds ! i) = Inr (ms' ! i)" by simp_all
  have "toMsg (clock (k + i)) ((d # ds) ! i) = Inr (ms ! i)" if "i < length (d # ds)" for i
  proof (cases i)
    case 0
    with m ms show ?thesis by simp
  next
    case (Suc j)
    with that el ms show ?thesis by simp
  qed
  with len ms show ?case by simp
qed

lemma toMsg_noRaise:
  "isTimestamp (getProp ''createdAt'' (data d)) \<or> lacksToDate (getProp ''createdAt'' (data d))
   \<Longrightarrow> \<exists>m. toMsg now d = Inr m"
  by (cases "getProp ''createdAt'' (data d)") (auto simp: toMsg_def isTimestamp_def lacksToDate_def)

lemma mapDocs_total:
  "\<forall>d\<in>set docs. isTimestamp (getProp ''createdAt'' (data d)) \<or> lacksToDate (getProp ''createdAt'' (data d))
   \<Longrightarrow> \<exists>ms. mapDocs clock k docs = Inr ms"
proof (induction docs arbitrary: k)
  case Nil
  then show ?case by simp
next
  case (Cons d ds)
  then obtain m where "toMsg (clock k) d = Inr m" using toMsg_noRaise[of d "clock k"] by auto
  moreover from Cons obtain ms where "mapDocs clock (Suc k) ds = Inr ms" by fastforce
  ultimately show ?case by simp
qed

text \<open>
  What the fallback does achieve: a record for which the test
  \<^verbatim>\<open>createdAt?.toDate\<close> fails is itself mapped, without an exception, to a feed
  element with the clock's reading as its timestamp and all of its fields; if the map
  over the snapshot completes, the element stands in \<^verbatim>\<open>allMessages\<close> at the
  record's position; and the map completes when every record of the snapshot has a store
  timestamp or fails the test.
\<close>

lemma undated_record_when_map_completes:
  assumes "i < length docs" and "lacksToDate (getProp ''createdAt'' (data (docs ! i)))"
  shows "\<exists>m. toMsg (clock i) (docs ! i) = Inr m \<and> createdAt m = clock i \<and> rest m = data (docs ! i)
           \<and> (\<forall>ms. allMessages clock docs = Inr ms \<longrightarrow> length ms = length docs \<and> ms ! i = m)
           \<and> ((\<forall>d\<in>set docs. isTimestamp (getProp ''createdAt'' (data d))
                              \<or> lacksToDate (getProp ''createdAt'' (data d)))
                \<longrightarrow> (\<exists>ms. allMessages clock docs = Inr ms))"
proof -
  obtain m where m: "toMsg (clock i) (docs ! i) = Inr m" "createdAt m = clock i" "rest m = data (docs ! i)"
    using normalize_lacks[OF assms(2), of "clock i"] by (simp add: toMsg_def)
  have "length ms = length docs \<and> ms ! i = m" if "allMessages clock docs = Inr ms" for ms
    using mapDocs_Inr[of clock 0 docs ms] that assms(1) m(1) by (simp add: allMessages_def)
  moreover have "\<exists>ms. allMessages clock docs = Inr ms"
    if "\<forall>d\<in>set docs. isTimestamp (getProp ''createdAt'' (data d))
                              \<or> lacksToDate (getProp ''createdAt'' (data d))"
    using mapDocs_total[OF that] by (simp add: allMessages_def)
  ultimately show ?thesis using m by blast
qed

text \<open>
  C8. The fallback does not reach every record without a conversion. A record whose
  \<^verbatim>\<open>createdAt\<close> is a map with a truthy \<^verbatim>\<open>toDate\<close> entry has no
  conversion either, but it passes the test of line 113 and the call raises instead of
  the record getting the current instant; and since one exception aborts the whole map,
  an undated record of the same snapshot, which would get the fallback, is not kept in the
  feed: no feed and no view is produced for the pair it belongs to.
\<close>

theorem undated_record_lost_beside_uncallable_toDate:
  "toMsg 2000 docBadToDate = Inl TypeError
   \<and> lacksToDate (getProp ''createdAt'' (data docUndated))
   \<and> allMessages (steadyClock 2000) [docUndated, docBadToDate] = Inl TypeError
   \<and> snapshotView ''bob@y.com'' ''alice@x.com'' (steadyClock 2000) [docUndated, docBadToDate] =
       Inl TypeError"
  by (simp add: snapshotView_def allMessages_def toMsg_def getProp_def lacksToDate_def
      docUndated_def docBadToDate_def steadyClock_def)

text \<open>
  C10. The callback is not total: a document whose \<^verbatim>\<open>createdAt\<close> is a map with a
  truthy \<^verbatim>\<open>toDate\<close> entry passes the test of line 113, the call of the entry raises,
  and the exception leaves the callback before the view is set, although the snapshot
  also holds a well-formed message of the viewed pair.
\<close>

theorem callback_raises_on_uncallable_toDate:
  "snapshotView ''alice@x.com'' ''bob@y.com'' (steadyClock 2000) [docDated, docBadToDate] =
     Inl TypeError
   \<and> messages (onSnapshot 0 (steadyClock 2000) [docDated, docBadToDate] aliceSubscribed) = []"
proof -
  have v: "snapshotView ''alice@x.com'' ''bob@y.com'' (steadyClock 2000) [docDated, docBadToDate] =
     Inl TypeError"
    by (simp add: snapshotView_def allMessages_def toMsg_def getProp_def docDated_def
        docBadToDate_def steadyClock_def)
  have "listeners aliceSubscribed = [(0, ''alice@x.com'', ''bob@y.com'')]"
       "messages aliceSubscribed = []"
    by (simp_all add: aliceSubscribed_def commit_def runCleanup_def subscriptionEffect_def
        emit_def falsy_def mountScreen_def)
  with v show ?thesis by (simp add: onSnapshot_def)
qed

text \<open>
  What does hold of record shapes: a record without a receiver, and a record whose user
  is neither one of the two identities nor an object with one of them as a truthy
  \<^verbatim>\<open>_id\<close>, is dropped by the filter of every pair; and the map over a snapshot
  raises nothing when each \<^verbatim>\<open>createdAt\<close> is a store timestamp or fails the test
  of line 113, whatever else the records hold or lack.
\<close>

lemma foreign_shapes_are_dropped:
  "(getProp ''receiver'' (rest m) = JUndefined \<longrightarrow> \<not> keepMsg usr rcv m)
   \<and> (getProp ''user'' (rest m) \<notin> {JStr usr, JStr rcv}
        \<and> optChain ''_id'' (getProp ''user'' (rest m)) \<notin> {JStr usr, JStr rcv}
      \<longrightarrow> \<not> keepMsg usr rcv m)"
  by (auto simp: keepMsg_def strictEqStr_iff msgUser_def msgReceiver_def Let_def)

lemma snapshotView_total:
  "\<forall>d\<in>set docs. isTimestamp (getProp ''createdAt'' (data d)) \<or> lacksToDate (getProp ''createdAt'' (data d))
   \<Longrightarrow> \<exists>view. snapshotView usr rcv clock docs = Inr view"
  using mapDocs_total[of docs clock 0] by (auto simp: snapshotView_def allMessages_def)

section \<open>Properties of the submission path\<close>

text \<open>
  C5. The send button does not reject whitespace-only text: the test of line 488 is made
  on the untrimmed text, so for the text of one space, with both identities set, a record
  with the empty text is appended.
\<close>

theorem whitespace_only_text_is_sent:
  "trace (pressSend (JStr ''alice@x.com'') ''m2'' 100 None '' '' aliceToBob) =
     [AddDoc [(''_id'', JStr ''m2''), (''createdAt'', JDate 100), (''text'', JStr ''''),
              (''user'', chatUser (JStr ''alice@x.com'') JNull), (''receiver'', JStr ''bob@y.com'')],
      ConsoleLog ''Message sent successfully'']"
  by (simp add: pressSend_def onSend_def giftedOnSend_def buildRecord_def getProp_def trim_def
      jsWhite_def aliceToBob_def mountScreen_def falsy_def emit_def chatUser_def)

text \<open>The empty text is rejected, and what is sent is the trimmed text.\<close>

lemma empty_text_is_not_sent: "pressSend email mid now outcome [] st = st"
  by (simp add: pressSend_def)

lemma sent_text_is_trimmed:
  assumes "text \<noteq> []" and "receiver st = Some rcv" and "user st = Some usr"
      and "rcv \<noteq> []" and "usr \<noteq> []"
  shows "\<exists>r. trace (pressSend email mid now None text st) =
               trace st @ [AddDoc r, ConsoleLog ''Message sent successfully'']
             \<and> getProp ''text'' r = JStr (trim text)"
  using assms
  by (simp add: pressSend_def onSend_def giftedOnSend_def buildRecord_def getProp_def
      falsy_def emit_def)

text \<open>
  C6. When either identity is unset (null, or empty, as \<^verbatim>\<open>!x\<close> tests it), the send
  only writes the error to the console: the screen is otherwise unchanged, so the view is
  the same, and no append is among the effects it adds.
\<close>

theorem send_without_pair_fails_fast:
  assumes "falsy (receiver st) \<or> falsy (user st)"
  shows "onSend now outcome msgs st =
           st\<lparr>trace := trace st @ [ConsoleError ''Receiver or user not defined'']\<rparr>
         \<and> messages (onSend now outcome msgs st) = messages st
         \<and> (\<forall>r. AddDoc r \<notin> set (drop (length (trace st)) (trace (onSend now outcome msgs st))))"
  using assms by (simp add: onSend_def emit_def)

theorem send_without_pair_fails_fast_witness:
  "falsy (receiver mountScreen)
   \<and> trace (onSend 100 None [hiMessage] mountScreen) = [ConsoleError ''Receiver or user not defined'']
   \<and> messages (onSend 100 None [hiMessage] mountScreen) = []"
proof -
  have h: "falsy (receiver mountScreen) \<or> falsy (user mountScreen)"
    by (simp add: mountScreen_def falsy_def)
  show ?thesis
    using send_without_pair_fails_fast [OF h, of 100 None "[hiMessage]"]
    by (simp add: mountScreen_def falsy_def)
qed

text \<open>
  C7. The error callback of an open listener only writes to the console, and a send whose
  append the store rejects makes that one append and then only writes to the console:
  in both cases the screen is otherwise unchanged, so the view is the one computed last,
  and no second append or new subscription follows.
\<close>

theorem store_failures_are_logged_only:
  "(find (\<lambda>l. fst l = h) (listeners st) \<noteq> None \<longrightarrow>
      onSnapshotError h st = st\<lparr>trace := trace st @ [ConsoleError ''Error fetching messages:'']\<rparr>)
   \<and> messages (onSnapshotError h st) = messages st
   \<and> (receiver st = Some rcv \<and> user st = Some usr \<and> rcv \<noteq> [] \<and> usr \<noteq> [] \<longrightarrow>
      onSend now (Some e) (m # ms) st =
        st\<lparr>trace := trace st @ [AddDoc (buildRecord now rcv m), ConsoleError ''Error sending message:'']\<rparr>)
   \<and> messages (onSend now (Some e) msgs st) = messages st"
  by (auto simp: onSnapshotError_def onSend_def emit_def falsy_def split: option.splits list.splits)

lemma aliceSubscribed_eq:
  "aliceSubscribed =
     \<lparr> messages = [], avatar = JNull, receiver = Some ''bob@y.com'', user = Some ''alice@x.com'',
       cleanup = Some 0, listeners = [(0, ''alice@x.com'', ''bob@y.com'')], opened = Suc 0,
       mounted = True, trace = [Subscribe 0] \<rparr>"
  by (simp add: aliceSubscribed_def commit_def runCleanup_def subscriptionEffect_def
      emit_def falsy_def mountScreen_def)

theorem store_failures_are_logged_only_witness:
  "trace (onSnapshotError 0 aliceSubscribed) = [Subscribe 0, ConsoleError ''Error fetching messages:'']
   \<and> messages (onSnapshotError 0 aliceSubscribed) = []
   \<and> trace (onSend 100 (Some StoreError) [hiMessage] aliceSubscribed) =
       [Subscribe 0, AddDoc (buildRecord 100 ''bob@y.com'' hiMessage),
        ConsoleError ''Error sending message:'']
   \<and> messages (onSend 100 (Some StoreError) [hiMessage] aliceSubscribed) = []"
  using store_failures_are_logged_only
    [where h = 0 and st = aliceSubscribed and rcv = "''bob@y.com''" and usr = "''alice@x.com''"
       and now = 100 and e = StoreError and m = hiMessage and ms = "[]" and msgs = "[hiMessage]"]
  by (simp add: aliceSubscribed_eq)

section \<open>Subscription discipline\<close>


lemma track_append: "track live (xs @ ys) = track (track live xs) ys"
  by (induction live xs rule: track.induct) simp_all

lemma liveAfter_snoc:
  "liveAfter (es @ [e]) =
     (case e of Subscribe h \<Rightarrow> liveAfter es @ [h]
      | Unsubscribe h \<Rightarrow> filter (\<lambda>k. k \<noteq> h) (liveAfter es)
      | _ \<Rightarrow> liveAfter es)"
  by (cases e) (simp_all add: liveAfter_def track_append)

lemma take_snoc_cases: "take n (es @ [e]) = es @ [e] \<or> take n (es @ [e]) = take n es"
  by (cases "n \<le> length es") auto

lemma prefixes_snoc:
  assumes "\<forall>n. length (liveAfter (take n es)) \<le> 1" and "length (liveAfter (es @ [e])) \<le> 1"
  shows "\<forall>n. length (liveAfter (take n (es @ [e]))) \<le> 1"
proof
  fix n
  from take_snoc_cases[of n es e] show "length (liveAfter (take n (es @ [e]))) \<le> 1"
    using assms by auto
qed

lemma tidy_mount: "tidy mountScreen"
  by (simp add: tidy_def mountScreen_def liveAfter_def)

lemma tidy_emit_other:
  assumes "tidy st" and "\<forall>h. e \<noteq> Subscribe h \<and> e \<noteq> Unsubscribe h"
  shows "tidy (emit e st)"
proof -
  have l: "liveAfter (trace st @ [e]) = liveAfter (trace st)"
    using assms(2) by (cases e) (simp_all add: liveAfter_snoc)
  from assms(1) have "\<forall>n. length (liveAfter (take n (trace st))) \<le> 1"
    by (simp add: tidy_def)
  from this[rule_format, of "length (trace st)"] have "length (liveAfter (trace st)) \<le> 1"
    by simp
  with assms(1) l have "\<forall>n. length (liveAfter (take n (trace st @ [e]))) \<le> 1"
    by (intro prefixes_snoc) (simp_all add: tidy_def)
  with assms(1) l show ?thesis by (simp add: tidy_def emit_def)
qed

lemma tidy_runCleanup:
  assumes "tidy st"
  shows "tidy (runCleanup st) \<and> cleanup (runCleanup st) = None \<and> listeners (runCleanup st) = []
         \<and> mounted (runCleanup st) = mounted st \<and> user (runCleanup st) = user st
         \<and> receiver (runCleanup st) = receiver st"
proof (cases "cleanup st")
  case None
  with assms show ?thesis by (simp add: runCleanup_def tidy_def)
next
  case (Some h)
  with assms obtain usr rcv where l: "listeners st = [(h, usr, rcv)]"
    and t: "liveAfter (trace st) = [h]" and p: "\<forall>n. length (liveAfter (take n (trace st))) \<le> 1"
    by (auto simp: tidy_def)
  have a: "liveAfter (trace st @ [Unsubscribe h]) = []"
    by (simp add: liveAfter_snoc t)
  have "\<forall>n. length (liveAfter (take n (trace st @ [Unsubscribe h]))) \<le> 1"
    using p a by (intro prefixes_snoc) simp_all
  with Some l a show ?thesis
    by (simp add: runCleanup_def unsubscribe_def emit_def tidy_def)
qed

lemma tidy_subscriptionEffect:
  assumes "tidy st" and "cleanup st = None" and "mounted st"
  shows "tidy (subscriptionEffect st) \<and> current (subscriptionEffect st)"
proof (cases "falsy (receiver st) \<or> falsy (user st)")
  case True
  with assms show ?thesis by (simp add: subscriptionEffect_def tidy_def current_def)
next
  case False
  then obtain rcv usr where ru: "receiver st = Some rcv" "user st = Some usr"
    by (auto simp: falsy_def split: option.splits)
  from assms have l: "listeners st = []" and t: "liveAfter (trace st) = []"
    and p: "\<forall>n. length (liveAfter (take n (trace st))) \<le> 1"
    by (simp_all add: tidy_def)
  have a: "liveAfter (trace st @ [Subscribe (opened st)]) = [opened st]"
    by (simp add: liveAfter_snoc t)
  have "\<forall>n. length (liveAfter (take n (trace st @ [Subscribe (opened st)]))) \<le> 1"
    using p a by (intro prefixes_snoc) simp_all
  with False ru l a assms(3) show ?thesis
    by (simp add: subscriptionEffect_def emit_def tidy_def current_def)
qed

lemma tidy_pair_update: "tidy (st\<lparr>receiver := rcv, user := usr\<rparr>) = tidy st"
  by (simp add: tidy_def)

lemma tidy_commit:
  assumes "tidy st" and "current st"
  shows "tidy (commit usr rcv st) \<and> current (commit usr rcv st)"
proof (cases "\<not> mounted st \<or> (receiver st = rcv \<and> user st = usr)")
  case True
  with assms show ?thesis by (auto simp: commit_def)
next
  case False
  let ?s = "st\<lparr>receiver := rcv, user := usr\<rparr>"
  from False have m: "mounted st" and d: "\<not> (receiver st = rcv \<and> user st = usr)"
    by auto
  have eq: "commit usr rcv st = subscriptionEffect (runCleanup ?s)"
    using m d by (auto simp: commit_def)
  have "tidy ?s" using assms(1) by (simp add: tidy_pair_update)
  from tidy_runCleanup[OF this] m
  have "tidy (runCleanup ?s)" "cleanup (runCleanup ?s) = None" "mounted (runCleanup ?s)"
    by simp_all
  from tidy_subscriptionEffect[OF this] show ?thesis unfolding eq .
qed

lemma tidy_unmount:
  assumes "tidy st" and "current st"
  shows "tidy (unmount st) \<and> current (unmount st)"
proof (cases "mounted st")
  case True
  from tidy_runCleanup[OF assms(1)] True show ?thesis
    by (simp add: unmount_def tidy_def current_def)
next
  case False
  with assms show ?thesis by (simp add: unmount_def)
qed

lemma tidy_onSnapshot:
  assumes "tidy st" and "current st"
  shows "tidy (onSnapshot h clock docs st) \<and> current (onSnapshot h clock docs st)"
  using assms
  by (auto simp: onSnapshot_def tidy_def current_def split: option.splits sum.splits)

lemma tidy_onSnapshotError:
  assumes "tidy st" and "current st"
  shows "tidy (onSnapshotError h st) \<and> current (onSnapshotError h st)"
proof (cases "find (\<lambda>l. fst l = h) (listeners st)")
  case None
  with assms show ?thesis by (simp add: onSnapshotError_def)
next
  case (Some l)
  have "tidy (emit (ConsoleError ''Error fetching messages:'') st)"
    using assms(1) by (rule tidy_emit_other) simp
  with Some assms(2) show ?thesis by (simp add: onSnapshotError_def current_def emit_def)
qed

lemma current_emit: "current (emit e st) = current st"
  by (simp add: current_def emit_def)

lemma tidy_onSend:
  assumes "tidy st" and "current st"
  shows "tidy (onSend now outcome msgs st) \<and> current (onSend now outcome msgs st)"
  using assms
  by (auto simp: onSend_def current_emit intro!: tidy_emit_other split: list.splits option.splits)

lemma tidy_step:
  assumes "tidy st" and "current st"
  shows "tidy (step e st) \<and> current (step e st)"
  using assms tidy_commit tidy_unmount tidy_onSnapshot tidy_onSnapshotError tidy_onSend
  by (cases e) simp_all

lemma tidy_run: "tidy st \<Longrightarrow> current st \<Longrightarrow> tidy (run es st) \<and> current (run es st)"
proof (induction es arbitrary: st)
  case Nil
  then show ?case by simp
next
  case (Cons e es)
  from tidy_step[OF Cons.prems] have "tidy (step e st)" "current (step e st)" by simp_all
  from Cons.IH[OF this] show ?case by simp
qed

lemma unmounted_closed: "tidy st \<Longrightarrow> \<not> mounted st \<Longrightarrow> listeners st = []"
  by (cases "cleanup st") (auto simp: tidy_def)

lemma run_append: "run (xs @ ys) st = run ys (run xs st)"
  by (induction xs arbitrary: st) simp_all

lemma unmounted_unmount: "\<not> mounted (unmount st)"
  by (simp add: unmount_def)

lemma unmounted_step: "\<not> mounted st \<Longrightarrow> \<not> mounted (step e st)"
  by (cases e)
    (auto simp: commit_def unmount_def onSnapshot_def onSnapshotError_def onSend_def emit_def
      split: option.splits sum.splits list.splits)

lemma unmounted_run: "\<not> mounted st \<Longrightarrow> \<not> mounted (run es st)"
  by (induction es arbitrary: st) (simp_all add: unmounted_step)

lemma open_listener_has_cleanup:
  assumes "tidy st" and "listeners st = [(h, usr, rcv)]"
  shows "cleanup st = Some h \<and> mounted st \<and> h < opened st"
proof (cases "cleanup st")
  case None
  with assms show ?thesis by (simp add: tidy_def)
next
  case (Some k)
  with assms show ?thesis by (auto simp: tidy_def)
qed

lemma runCleanup_open:
  assumes "cleanup st = Some h"
  shows "runCleanup st =
           st\<lparr>listeners := filter (\<lambda>l. fst l \<noteq> h) (listeners st),
               trace := trace st @ [Unsubscribe h], cleanup := None\<rparr>"
  using assms by (simp add: runCleanup_def unsubscribe_def emit_def)

lemma subscriptionEffect_cases:
  "subscriptionEffect st = st\<lparr>cleanup := None\<rparr>
   \<or> (\<exists>usr rcv. subscriptionEffect st =
         st\<lparr>listeners := listeners st @ [(opened st, usr, rcv)],
             cleanup := Some (opened st), opened := Suc (opened st),
             trace := trace st @ [Subscribe (opened st)]\<rparr>)"
  by (auto simp: subscriptionEffect_def emit_def falsy_def split: option.splits)

lemma unmount_closes:
  assumes "tidy st" and "listeners st = [(h, usr, rcv)]"
  shows "trace (unmount st) = trace st @ [Unsubscribe h] \<and> listeners (unmount st) = []"
proof -
  from open_listener_has_cleanup[OF assms] have c: "cleanup st = Some h" and m: "mounted st"
    by simp_all
  show ?thesis using m assms(2) by (simp add: unmount_def runCleanup_open[OF c])
qed

lemma switch_closes_first:
  assumes "tidy st" and "listeners st = [(h, u, r)]" and "user st \<noteq> usr \<or> receiver st \<noteq> rcv"
  shows "take (Suc (length (trace st))) (trace (commit usr rcv st)) = trace st @ [Unsubscribe h]
         \<and> h \<notin> fst ` set (listeners (commit usr rcv st))"
proof -
  from open_listener_has_cleanup[OF assms(1,2)]
  have c: "cleanup st = Some h" and m: "mounted st" and lt: "h < opened st" by simp_all
  let ?p = "st\<lparr>receiver := rcv, user := usr\<rparr>"
  let ?q = "runCleanup ?p"
  have q: "?q = ?p\<lparr>listeners := [], trace := trace st @ [Unsubscribe h], cleanup := None\<rparr>"
    using c assms(2) by (simp add: runCleanup_open)
  have eq: "commit usr rcv st = subscriptionEffect ?q"
    using m assms(3) by (auto simp: commit_def)
  from subscriptionEffect_cases[of ?q] show ?thesis
  proof
    assume "subscriptionEffect ?q = ?q\<lparr>cleanup := None\<rparr>"
    then show ?thesis unfolding eq by (simp add: q)
  next
    assume "\<exists>usr' rcv'. subscriptionEffect ?q =
         ?q\<lparr>listeners := listeners ?q @ [(opened ?q, usr', rcv')],
             cleanup := Some (opened ?q), opened := Suc (opened ?q),
             trace := trace ?q @ [Subscribe (opened ?q)]\<rparr>"
    then obtain usr' rcv' where "subscriptionEffect ?q =
         ?q\<lparr>listeners := listeners ?q @ [(opened ?q, usr', rcv')],
             cleanup := Some (opened ?q), opened := Suc (opened ?q),
             trace := trace ?q @ [Subscribe (opened ?q)]\<rparr>" by blast
    then show ?thesis unfolding eq using lt by (simp add: q)
  qed
qed

text \<open>
  C9. Whatever renders are committed, snapshots and errors delivered and messages sent:
  at no point of the trace of effects is more than one subscription open, and the one
  listener that is open closed over the pair now in the state. When a render with a
  different pair is committed while a listener is open, the first effect is the call of
  that listener's \<^verbatim>\<open>unsubscribe\<close>, before anything is opened, and the old handle
  is not among the listeners afterwards. When the screen is unmounted while a listener is
  open, its \<^verbatim>\<open>unsubscribe\<close> is called, and from an unmount on, whatever follows,
  no listener is open. A snapshot that changes the view sets it to the view of the
  current pair.
\<close>

theorem one_live_subscription:
  "(\<forall>n. length (liveAfter (take n (trace (run es mountScreen)))) \<le> 1)
   \<and> length (listeners (run es mountScreen)) \<le> 1
   \<and> (\<forall>l\<in>set (listeners (run es mountScreen)).
         user (run es mountScreen) = Some (fst (snd l)) \<and>
         receiver (run es mountScreen) = Some (snd (snd l)))
   \<and> (\<not> mounted (run es mountScreen) \<longrightarrow> listeners (run es mountScreen) = [])
   \<and> (\<forall>h clock docs usr rcv.
         user (run es mountScreen) = Some usr \<and> receiver (run es mountScreen) = Some rcv \<and>
         messages (onSnapshot h clock docs (run es mountScreen)) \<noteq> messages (run es mountScreen)
         \<longrightarrow> snapshotView usr rcv clock docs =
               Inr (messages (onSnapshot h clock docs (run es mountScreen))))
   \<and> (\<forall>h u r usr rcv.
         listeners (run es mountScreen) = [(h, u, r)] \<and>
         (user (run es mountScreen) \<noteq> usr \<or> receiver (run es mountScreen) \<noteq> rcv)
         \<longrightarrow> take (Suc (length (trace (run es mountScreen))))
                 (trace (run (es @ [Commit usr rcv]) mountScreen)) =
               trace (run es mountScreen) @ [Unsubscribe h]
             \<and> h \<notin> fst ` set (listeners (run (es @ [Commit usr rcv]) mountScreen)))
   \<and> (\<forall>h u r.
         listeners (run es mountScreen) = [(h, u, r)]
         \<longrightarrow> trace (run (es @ [Unmount]) mountScreen) =
               trace (run es mountScreen) @ [Unsubscribe h])
   \<and> (\<forall>es'. listeners (run (es @ Unmount # es') mountScreen) = []
             \<and> liveAfter (trace (run (es @ Unmount # es') mountScreen)) = [])"
proof -
  let ?s = "run es mountScreen"
  have c0: "current mountScreen" by (simp add: current_def mountScreen_def)
  with tidy_mount have t: "tidy ?s" and c: "current ?s" using tidy_run by blast+
  have 1: "\<forall>n. length (liveAfter (take n (trace ?s))) \<le> 1" using t by (simp add: tidy_def)
  have 2: "length (listeners ?s) \<le> 1" using t by (cases "cleanup ?s") (auto simp: tidy_def)
  have 3: "\<forall>l\<in>set (listeners ?s). user ?s = Some (fst (snd l)) \<and> receiver ?s = Some (snd (snd l))"
    using c by (simp add: current_def)
  have 4: "\<not> mounted ?s \<longrightarrow> listeners ?s = []" using t unmounted_closed by blast
  have 5: "snapshotView usr rcv clock docs = Inr (messages (onSnapshot h clock docs ?s))"
    if "user ?s = Some usr" "receiver ?s = Some rcv"
       "messages (onSnapshot h clock docs ?s) \<noteq> messages ?s" for h clock docs usr rcv
  proof (cases "find (\<lambda>l. fst l = h) (listeners ?s)")
    case None
    with that show ?thesis by (simp add: onSnapshot_def)
  next
    case (Some l)
    then have "l \<in> set (listeners ?s)" by (auto simp: find_Some_iff)
    with 3 that have "fst (snd l) = usr" "snd (snd l) = rcv" by auto
    with Some that(3) show ?thesis
      by (cases l) (auto simp: onSnapshot_def split: sum.splits)
  qed
  have 6: "take (Suc (length (trace ?s))) (trace (run (es @ [Commit usr rcv]) mountScreen)) =
             trace ?s @ [Unsubscribe h]
           \<and> h \<notin> fst ` set (listeners (run (es @ [Commit usr rcv]) mountScreen))"
    if "listeners ?s = [(h, u, r)]" "user ?s \<noteq> usr \<or> receiver ?s \<noteq> rcv" for h u r usr rcv
    using switch_closes_first[OF t that] by (simp add: run_append)
  have 7: "trace (run (es @ [Unmount]) mountScreen) = trace ?s @ [Unsubscribe h]"
    if "listeners ?s = [(h, u, r)]" for h u r
    using unmount_closes[OF t that] by (simp add: run_append)
  have 8: "listeners (run (es @ Unmount # es') mountScreen) = []
           \<and> liveAfter (trace (run (es @ Unmount # es') mountScreen)) = []" for es'
  proof -
    let ?u = "run (es @ Unmount # es') mountScreen"
    have r: "?u = run es' (unmount ?s)" by (simp add: run_append)
    have tu: "tidy ?u" using tidy_mount c0 tidy_run by blast
    have "\<not> mounted ?u" unfolding r by (rule unmounted_run) (rule unmounted_unmount)
    with tu have "listeners ?u = []" by (rule unmounted_closed)
    moreover from tu have "liveAfter (trace ?u) = map fst (listeners ?u)" by (simp add: tidy_def)
    ultimately show ?thesis by simp
  qed
  from 1 2 3 4 5 6 7 8 show ?thesis by blast
qed

theorem one_live_subscription_witness:
  "listeners (run [Commit (Some ''alice@x.com'') (Some ''bob@y.com'')] mountScreen) =
     [(0, ''alice@x.com'', ''bob@y.com'')]
   \<and> trace (run [Commit (Some ''alice@x.com'') (Some ''bob@y.com'')] mountScreen) = [Subscribe 0]
   \<and> trace (run ([Commit (Some ''alice@x.com'') (Some ''bob@y.com'')]
                  @ [Commit (Some ''alice@x.com'') (Some ''carol@z.com'')]) mountScreen) =
     [Subscribe 0, Unsubscribe 0, Subscribe 1]
   \<and> listeners (run ([Commit (Some ''alice@x.com'') (Some ''bob@y.com'')]
                  @ [Commit (Some ''alice@x.com'') (Some ''carol@z.com'')]) mountScreen) =
     [(1, ''alice@x.com'', ''carol@z.com'')]
   \<and> trace (run ([Commit (Some ''alice@x.com'') (Some ''bob@y.com'')] @ [Unmount]) mountScreen) =
     [Subscribe 0, Unsubscribe 0]
   \<and> listeners (run ([Commit (Some ''alice@x.com'') (Some ''bob@y.com'')]
                  @ Unmount # [Commit (Some ''alice@x.com'') (Some ''carol@z.com'')]) mountScreen) = []
   \<and> trace (run ([Commit (Some ''alice@x.com'') (Some ''bob@y.com'')]
                  @ Unmount # [Commit (Some ''alice@x.com'') (Some ''carol@z.com'')]) mountScreen) =
     [Subscribe 0, Unsubscribe 0]"
  using one_live_subscription [of "[Commit (Some ''alice@x.com'') (Some ''bob@y.com'')]"]
  by (simp add: commit_def unmount_def runCleanup_def subscriptionEffect_def unsubscribe_def
      emit_def falsy_def mountScreen_def)

end
